theory Spec2Isabelle
  imports Main "HOL-Library.AList" "HOL-Library.Sublist"
begin

section \<open>Python strings\<close>

text \<open>
  A Python \<open>str\<close> is a sequence of Unicode code points. The category names and the
  prompt of \<open>app.py\<close> are Chinese text, and \<open>str.strip\<close> and \<open>str.splitlines\<close>
  look at code points beyond ASCII, so a string is modelled as the list of its code
  points. \<open>u\<close> reads an ASCII literal as such a string.
\<close>

type_synonym ustr = "nat list"

definition u :: "string \<Rightarrow> ustr" where
  "u s = map of_char s"

text \<open>
  The characters \<open>str.strip()\<close> removes (those for which \<open>str.isspace\<close> holds), and
  the line boundaries of \<open>str.splitlines()\<close>, as CPython defines them.
\<close>

definition is_space :: "nat \<Rightarrow> bool" where
  "is_space c \<longleftrightarrow>
     (9 \<le> c \<and> c \<le> 13) \<or> (28 \<le> c \<and> c \<le> 32) \<or> c = 133 \<or> c = 160 \<or> c = 5760 \<or>
     (8192 \<le> c \<and> c \<le> 8202) \<or> c = 8232 \<or> c = 8233 \<or> c = 8239 \<or> c = 8287 \<or>
     c = 12288"

definition is_linebreak :: "nat \<Rightarrow> bool" where
  "is_linebreak c \<longleftrightarrow>
     (10 \<le> c \<and> c \<le> 13) \<or> (28 \<le> c \<and> c \<le> 30) \<or> c = 133 \<or> c = 8232 \<or> c = 8233"

text \<open>\<open>s.strip()\<close>\<close>

definition strip :: "ustr \<Rightarrow> ustr" where
  "strip s = rev (dropWhile is_space (rev (dropWhile is_space s)))"

text \<open>\<open>s.startswith(p)\<close>\<close>

definition startswith :: "ustr \<Rightarrow> ustr \<Rightarrow> bool" where
  "startswith s p = prefix p s"

text \<open>
  \<open>s.splitlines()\<close>: the lines of \<open>s\<close> without their line ends; \<open>\r\n\<close> is one
  line end, and a line end at the very end of the text opens no further line.
  \<open>cur\<close> is the line read so far.
\<close>

fun splitlines_from :: "ustr \<Rightarrow> ustr \<Rightarrow> ustr list" where
  "splitlines_from cur [] = (if cur = [] then [] else [cur])"
| "splitlines_from cur [c] = (if is_linebreak c then [cur] else [cur @ [c]])"
| "splitlines_from cur (c # d # cs) =
     (if c = 13 \<and> d = 10 then cur # splitlines_from [] cs
      else if is_linebreak c then cur # splitlines_from [] (d # cs)
      else splitlines_from (cur @ [c]) (d # cs))"

definition splitlines :: "ustr \<Rightarrow> ustr list" where
  "splitlines s = splitlines_from [] s"

text \<open>\<open>sep.join(xs)\<close>\<close>

fun join :: "ustr \<Rightarrow> ustr list \<Rightarrow> ustr" where
  "join sep [] = []"
| "join sep [x] = x"
| "join sep (x # y # ys) = x @ sep @ join sep (y # ys)"

text \<open>
  \<open>s.split(sep)\<close>: the pieces of \<open>s\<close> between the occurrences of \<open>sep\<close>, found from
  the left and not overlapping. Python raises \<open>ValueError\<close> on an empty separator.
\<close>

datatype py_error = ValueError | TypeError | IndexError | KeyError | AttributeError

function split_from :: "ustr \<Rightarrow> ustr \<Rightarrow> ustr \<Rightarrow> ustr list" where
  "split_from sep cur [] = [cur]"
| "split_from sep cur (c # cs) =
     (if sep \<noteq> [] \<and> prefix sep (c # cs)
      then cur # split_from sep [] (drop (length sep) (c # cs))
      else split_from sep (cur @ [c]) cs)"
  by pat_completeness auto
termination
  by (relation "measure (\<lambda>(sep, cur, s). length s)") auto

definition str_split :: "ustr \<Rightarrow> ustr \<Rightarrow> py_error + ustr list" where
  "str_split s sep = (if sep = [] then Inl ValueError else Inr (split_from sep [] s))"

text \<open>\<open>sub in s\<close> for two strings: \<open>sub\<close> occurs in \<open>s\<close>.\<close>

fun str_contains :: "ustr \<Rightarrow> ustr \<Rightarrow> bool" where
  "str_contains [] sub = (sub = [])"
| "str_contains (c # cs) sub = (prefix sub (c # cs) \<or> str_contains cs sub)"

section \<open>Python values\<close>

text \<open>
  The values \<open>json.loads\<close> can return: \<open>None\<close>, a bool, an int, a float, a string, a
  list or a dict with string keys. A dict keeps its keys in insertion order, each key
  once, so it is an association list; \<open>d[k] = v\<close> is \<open>AList.update\<close>, which replaces
  the value of a key in place and appends a new key at the end. The representation
  \<open>'f\<close> of floats is left open: no function of the program looks into one.
\<close>

datatype 'f py =
    PNone
  | PBool bool
  | PInt int
  | PFloat 'f
  | PStr ustr
  | PList "'f py list"
  | PDict "(ustr \<times> 'f py) list"

text \<open>\<open>item in result\<close>, for a string \<open>item\<close>\<close>

fun py_contains :: "'f py \<Rightarrow> ustr \<Rightarrow> py_error + bool" where
  "py_contains (PDict d) item = Inr (item \<in> fst ` set d)"
| "py_contains (PList xs) item = Inr (PStr item \<in> set xs)"
| "py_contains (PStr s) item = Inr (str_contains s item)"
| "py_contains _ item = Inl TypeError"

text \<open>\<open>result[item] = v\<close>, for a string \<open>item\<close>\<close>

fun py_setitem :: "'f py \<Rightarrow> ustr \<Rightarrow> 'f py \<Rightarrow> py_error + 'f py" where
  "py_setitem (PDict d) item v = Inr (PDict (AList.update item v d))"
| "py_setitem _ item v = Inl TypeError"

text \<open>\<open>result.get(category)\<close>\<close>

fun py_get :: "'f py \<Rightarrow> ustr \<Rightarrow> py_error + 'f py" where
  "py_get (PDict d) category = Inr (case map_of d category of None \<Rightarrow> PNone | Some v \<Rightarrow> v)"
| "py_get _ category = Inl AttributeError"

section \<open>The response parser\<close>

text \<open>\<open>{item: "" for item in categories}\<close>\<close>

definition all_absent :: "ustr list \<Rightarrow> 'f py" where
  "all_absent categories = PDict (fold (\<lambda>item d. AList.update item (PStr []) d) categories [])"

text \<open>
  Lines 114 to 121 of \<open>parse_response\<close>: the text is stripped and, when it starts with
  three backticks, loses its first line and a last line that is three backticks.
  \<open>lines[0]\<close> raises \<open>IndexError\<close> on an empty list.
\<close>

definition fence :: ustr where
  "fence = [96, 96, 96]"

definition clean_response :: "ustr \<Rightarrow> py_error + ustr" where
  "clean_response response_text =
     (let cleaned = strip response_text in
      if startswith cleaned fence then
        (case splitlines cleaned of
           [] \<Rightarrow> Inl IndexError
         | l # ls \<Rightarrow>
             (let lines1 = (if startswith l fence then ls else l # ls);
                  lines2 = (if lines1 \<noteq> [] \<and> strip (last lines1) = fence
                            then butlast lines1 else lines1)
              in Inr (strip (join [10] lines2))))
      else Inr cleaned)"

text \<open>
  The loop of lines 125 to 127: every category that is not \<open>in\<close> the decoded value is
  stored into it with the value \<open>""\<close>. The decoded value need not be a dict, and then
  \<open>in\<close> or the store raises \<open>TypeError\<close>.
\<close>

fun fill_missing :: "'f py \<Rightarrow> ustr list \<Rightarrow> py_error + 'f py" where
  "fill_missing result [] = Inr result"
| "fill_missing result (item # items) =
     (case py_contains result item of
        Inl e \<Rightarrow> Inl e
      | Inr True \<Rightarrow> fill_missing result items
      | Inr False \<Rightarrow>
          (case py_setitem result item (PStr []) of
             Inl e \<Rightarrow> Inl e
           | Inr result' \<Rightarrow> fill_missing result' items))"

text \<open>
  \<open>parse_response\<close>. The decoder \<open>json.loads\<close> of the Python library is the parameter
  \<open>loads\<close>: \<open>None\<close> when it raises, the decoded value otherwise. The \<open>try\<close> block
  holds the decoding and the loop, and every exception raised there ends in the
  handler, which returns the all-absent dict; the calls that show the error on the page
  are not modelled.
\<close>

definition parse_response ::
  "(ustr \<Rightarrow> 'f py option) \<Rightarrow> ustr \<Rightarrow> ustr list \<Rightarrow> py_error + 'f py" where
  "parse_response loads response_text categories =
     (case clean_response response_text of
        Inl e \<Rightarrow> Inl e
      | Inr cleaned \<Rightarrow>
          (case loads cleaned of
             None \<Rightarrow> Inr (all_absent categories)
           | Some result \<Rightarrow>
               (case fill_missing result categories of
                  Inl e \<Rightarrow> Inr (all_absent categories)
                | Inr result' \<Rightarrow> Inr result')))"

section \<open>The batch classifier\<close>

text \<open>
  The fixed pieces of the prompt of lines 137 to 148, as code points: the text before
  the target language, the text between the target language and the category list, the
  text between the category list and the first delimiter, the example between the two
  delimiters, and the end of the example.
\<close>

definition prompt_head :: ustr where
  "prompt_head = [20320, 26159, 19968, 20301, 32]"

definition prompt_task :: ustr where
  "prompt_task =
     [32, 35486, 35328, 23416, 32722, 21839, 38988, 20998, 39006, 23560, 23478, 65292,
      35531, 26681, 25818, 20197, 19979, 20998, 39006, 38917, 30446, 23565, 27599, 26781,
      23416, 29983, 35342, 35542, 36914, 34892, 20998, 39006, 65306, 10]"

definition prompt_rules :: ustr where
  "prompt_rules =
     [10, 10, 35531, 26681, 25818, 35342, 35542, 20839, 23481, 23559, 27599, 20491, 21839,
      38988, 20998, 39006, 28858, 30456, 25033, 30340, 38917, 30446, 65292, 20006, 27161,
      35352, 27599, 20491, 38917, 30446, 65306, 33509, 35442, 38917, 30446, 28041, 21450,
      21063, 27161, 35352, 28858, 32, 49, 65292, 21542, 21063, 30041, 31354, 12290, 32,
      35531, 23565, 27599, 26781, 35342, 35542, 29986, 29983, 32, 74, 83, 79, 78, 32, 26684,
      24335, 22238, 35206, 65292, 20006, 22312, 21508, 26781, 32080, 26524, 38291, 29992,
      19979, 21015, 20998, 38548, 32218, 38548, 38283, 65306, 10]"

definition prompt_example :: ustr where
  "prompt_example =
     [10, 20363, 22914, 65306, 10, 96, 96, 96, 106, 115, 111, 110, 10, 123, 10, 32, 32, 34,
      35486, 27861, 21839, 38988, 34, 58, 32, 34, 49, 34, 44, 10, 32, 32, 34, 30332, 38899,
      21839, 38988, 34, 58, 32, 34, 34, 44, 10, 32, 32, 46, 46, 46, 10, 125, 10]"

definition prompt_tail :: ustr where
  "prompt_tail = [10, 123, 123, 46, 46, 46, 125, 125, 10, 96, 96, 96]"

definition prompt :: "ustr \<Rightarrow> ustr list \<Rightarrow> ustr \<Rightarrow> ustr" where
  "prompt target_language categories delimiter =
     prompt_head @ target_language @ prompt_task @ join [10] categories @
     prompt_rules @ delimiter @ prompt_example @ delimiter @ prompt_tail"

text \<open>
  The loop of lines 168 to 171: every part is stripped, and a part that is not empty
  then is parsed and appended to \<open>results\<close>.
\<close>

fun parse_parts ::
  "(ustr \<Rightarrow> 'f py option) \<Rightarrow> ustr list \<Rightarrow> ustr list \<Rightarrow> 'f py list \<Rightarrow> py_error + 'f py list" where
  "parse_parts loads [] categories results = Inr results"
| "parse_parts loads (part # parts) categories results =
     (let part' = strip part in
      if part' \<noteq> [] then
        (case parse_response loads part' categories of
           Inl e \<Rightarrow> Inl e
         | Inr r \<Rightarrow> parse_parts loads parts categories (results @ [r]))
      else parse_parts loads parts categories results)"

text \<open>The \<open>while\<close> loop of lines 174 and 175.\<close>

function pad_results :: "'f py list \<Rightarrow> 'a list \<Rightarrow> ustr list \<Rightarrow> 'f py list" where
  "pad_results results dialogues categories =
     (if length results < length dialogues
      then pad_results (results @ [all_absent categories]) dialogues categories
      else results)"
  by pat_completeness auto
termination
  by (relation "measure (\<lambda>(results, dialogues, categories). length dialogues - length results)")
    auto

declare pad_results.simps [simp del]

text \<open>
  \<open>process_batch_dialogue\<close>. \<open>content\<close> is the text of lines 149 and 150 that is
  sent to the model: the prompt, an empty line and the dialogues, joined by the
  delimiter on a line of its own. The call of the model is the parameter
  \<open>generate_content\<close>: given the content sent, the exception raised anywhere in the
  \<open>try\<close> block of lines 152 to 160 or the text of the response. \<open>split\<close> stands
  after the \<open>try\<close> block, so its \<open>ValueError\<close> leaves the function.
\<close>

definition content :: "ustr list \<Rightarrow> ustr \<Rightarrow> ustr list \<Rightarrow> ustr \<Rightarrow> ustr" where
  "content dialogues target_language categories delimiter =
     (let batch_text = join ([10] @ delimiter @ [10]) dialogues
      in prompt target_language categories delimiter @ [10, 10] @ batch_text)"

definition process_batch_dialogue ::
  "(ustr \<Rightarrow> 'f py option) \<Rightarrow> (ustr \<Rightarrow> 'e + ustr) \<Rightarrow> ustr list \<Rightarrow> ustr \<Rightarrow> ustr list \<Rightarrow> ustr \<Rightarrow>
     py_error + 'f py list" where
  "process_batch_dialogue loads generate_content dialogues target_language categories delimiter =
     (case generate_content (content dialogues target_language categories delimiter) of
        Inl e \<Rightarrow> Inr (map (\<lambda>_. all_absent categories) dialogues)
      | Inr response_text \<Rightarrow>
          (case str_split response_text delimiter of
             Inl e \<Rightarrow> Inl e
           | Inr parts \<Rightarrow>
               (case parse_parts loads parts categories [] of
                  Inl e \<Rightarrow> Inl e
                | Inr results \<Rightarrow>
                    (let results1 = pad_results results dialogues categories;
                         results2 = (if length results1 > length dialogues
                                     then take (length dialogues) results1 else results1)
                     in Inr results2))))"

section \<open>Aggregation\<close>

text \<open>
  \<open>calculate_category_counts\<close>. \<open>counts\<close> is a dict from categories to ints;
  \<open>counts[category] += 1\<close> reads the entry, raising \<open>KeyError\<close> when there is none,
  and stores it back.
\<close>

definition zero_counts :: "ustr list \<Rightarrow> (ustr \<times> int) list" where
  "zero_counts categories = fold (\<lambda>category d. AList.update category 0 d) categories []"

definition increment :: "(ustr \<times> int) list \<Rightarrow> ustr \<Rightarrow> py_error + (ustr \<times> int) list" where
  "increment counts category =
     (case map_of counts category of
        None \<Rightarrow> Inl KeyError
      | Some n \<Rightarrow> Inr (AList.update category (n + 1) counts))"

fun count_record ::
  "'f py \<Rightarrow> ustr list \<Rightarrow> (ustr \<times> int) list \<Rightarrow> py_error + (ustr \<times> int) list" where
  "count_record result [] counts = Inr counts"
| "count_record result (category # rest) counts =
     (case py_get result category of
        Inl e \<Rightarrow> Inl e
      | Inr v \<Rightarrow>
          if v = PStr (u ''1'') then
            (case increment counts category of
               Inl e \<Rightarrow> Inl e
             | Inr counts' \<Rightarrow> count_record result rest counts')
          else count_record result rest counts)"

fun count_records ::
  "'f py list \<Rightarrow> ustr list \<Rightarrow> (ustr \<times> int) list \<Rightarrow> py_error + (ustr \<times> int) list" where
  "count_records [] categories counts = Inr counts"
| "count_records (result # results) categories counts =
     (case count_record result categories counts of
        Inl e \<Rightarrow> Inl e
      | Inr counts' \<Rightarrow> count_records results categories counts')"

definition calculate_category_counts ::
  "'f py list \<Rightarrow> ustr list \<Rightarrow> py_error + (ustr \<times> int) list" where
  "calculate_category_counts results categories =
     count_records results categories (zero_counts categories)"

text \<open>
  \<open>format_category_result\<close> builds a new dict, and what matters about it is that
  the record passed in stays as it was, so here the objects live in a store: an address is
  an index into the list of objects, and a new object is put at the end. The function
  gets the address of the record and returns the store and the address of the new dict.
  The display glyph is the check mark U+2713.
\<close>

type_synonym addr = nat

type_synonym 'f store = "'f py list"

definition glyph :: ustr where
  "glyph = [10003]"

fun format_loop :: "'f store \<Rightarrow> addr \<Rightarrow> addr \<Rightarrow> ustr list \<Rightarrow> py_error + 'f store" where
  "format_loop st result formatted [] = Inr st"
| "format_loop st result formatted (category # rest) =
     (case py_get (st ! result) category of
        Inl e \<Rightarrow> Inl e
      | Inr v \<Rightarrow>
          (case py_setitem (st ! formatted) category
                  (if v = PStr (u ''1'') then PStr glyph else PStr []) of
             Inl e \<Rightarrow> Inl e
           | Inr obj \<Rightarrow> format_loop (st[formatted := obj]) result formatted rest))"

definition format_category_result ::
  "'f store \<Rightarrow> addr \<Rightarrow> ustr list \<Rightarrow> py_error + 'f store \<times> addr" where
  "format_category_result st result categories =
     (let formatted = length st;
          st1 = st @ [PDict []]
      in case format_loop st1 result formatted categories of
           Inl e \<Rightarrow> Inl e
         | Inr st2 \<Rightarrow> Inr (st2, formatted))"

section \<open>The category list\<close>

text \<open>
  The handler of the update button, lines 64 to 70: the lines of the text area are
  stripped and the empty ones dropped; a list that is not empty replaces the category
  list of the session, and an empty one leaves it and shows an error.
\<close>

datatype notice = Success nat | Error

definition update_categories :: "ustr list \<Rightarrow> ustr \<Rightarrow> py_error + ustr list \<times> notice" where
  "update_categories custom_categories categories_text =
     (case str_split categories_text [10] of
        Inl e \<Rightarrow> Inl e
      | Inr cats \<Rightarrow>
          (let categories = map strip (filter (\<lambda>cat. strip cat \<noteq> []) cats) in
           if categories \<noteq> [] then Inr (categories, Success (length categories))
           else Inr (custom_categories, Error)))"

text \<open>The category list a session starts with, lines 46 to 54.\<close>

definition default_categories :: "ustr list" where
  "default_categories =
     [[35486, 27861, 21839, 38988],
      [30332, 38899, 21839, 38988],
      [32893, 21147, 21839, 38988],
      [35422, 24409, 21839, 38988],
      [25991, 21270, 29702, 35299, 21839, 38988],
      [21475, 35498, 32244, 32722],
      [35486, 35328, 23416, 32722, 25216, 24039]]"

section \<open>The properties in the words of the specification\<close>

text \<open>
  A record is a dict. Its flag for a category is \<open>"1"\<close> when the dict holds the string
  \<open>"1"\<close> under that key; a missing key and any other value are not.
  \<open>count_flagged\<close> is the number of such records in a list.
\<close>

fun is_dict :: "'f py \<Rightarrow> bool" where
  "is_dict (PDict d) = True"
| "is_dict _ = False"

definition flag_is_one :: "'f py \<Rightarrow> ustr \<Rightarrow> bool" where
  "flag_is_one record category =
     (case record of PDict d \<Rightarrow> map_of d category = Some (PStr (u ''1'')) | _ \<Rightarrow> False)"

definition count_flagged :: "'f py list \<Rightarrow> ustr \<Rightarrow> int" where
  "count_flagged records category = int (length (filter (\<lambda>r. flag_is_one r category) records))"

section \<open>Example data\<close>

text \<open>
  The scenario of section 8 of the specification: two categories, three texts, and a
  response of two fragments with the delimiter between them. \<open>list_fragment\<close> is a
  response that names the categories in a JSON list. \<open>scenario_loads\<close> gives the
  values of \<open>json.loads\<close> on these three JSON texts; every other text an example hands
  to it is not JSON, where \<open>json.loads\<close> raises.
\<close>

definition scenario_categories :: "ustr list" where
  "scenario_categories = [u ''grammar'', u ''pronunciation'']"

definition scenario_texts :: "ustr list" where
  "scenario_texts = [u ''a'', u ''b'', u ''c'']"

definition scenario_fragment1 :: ustr where
  \<open>scenario_fragment1 = u ''{"grammar":"1"}''\<close>

definition scenario_fragment2 :: ustr where
  \<open>scenario_fragment2 = u ''{"pronunciation":"1"}''\<close>

definition scenario_response :: ustr where
  "scenario_response = scenario_fragment1 @ u ''-----'' @ scenario_fragment2"

definition list_fragment :: ustr where
  \<open>list_fragment = u ''["grammar","pronunciation"]''\<close>

definition scenario_loads :: "ustr \<Rightarrow> unit py option" where
  "scenario_loads s =
     (if s = scenario_fragment1 then Some (PDict [(u ''grammar'', PStr (u ''1''))])
      else if s = scenario_fragment2 then Some (PDict [(u ''pronunciation'', PStr (u ''1''))])
      else if s = list_fragment
        then Some (PList [PStr (u ''grammar''), PStr (u ''pronunciation'')])
      else None)"

text \<open>The three records of the scenario's result.\<close>

definition scenario_record1 :: "unit py" where
  "scenario_record1 = PDict [(u ''grammar'', PStr (u ''1'')), (u ''pronunciation'', PStr [])]"

definition scenario_record2 :: "unit py" where
  "scenario_record2 = PDict [(u ''pronunciation'', PStr (u ''1'')), (u ''grammar'', PStr [])]"

definition scenario_record3 :: "unit py" where
  "scenario_record3 = PDict [(u ''grammar'', PStr []), (u ''pronunciation'', PStr [])]"

section \<open>Strings and dicts: auxiliary facts\<close>

lemma splitlines_from_nonempty: "cur \<noteq> [] \<Longrightarrow> splitlines_from cur s \<noteq> []"
  by (induction cur s rule: splitlines_from.induct) auto

lemma splitlines_fence_nonempty:
  assumes "startswith s fence"
  shows "splitlines s \<noteq> []"
proof -
  from assms obtain rest where s: "s = 96 # 96 # 96 # rest"
    by (auto simp: startswith_def fence_def prefix_def)
  have "\<not> is_linebreak 96" by (simp add: is_linebreak_def)
  then have "splitlines s = splitlines_from [96] (96 # 96 # rest)"
    by (simp add: s splitlines_def)
  then show ?thesis by (simp add: splitlines_from_nonempty)
qed

lemma strip_decompose: "\<exists>w. dropWhile is_space s = strip s @ w"
proof -
  let ?t = "dropWhile is_space s"
  have "?t = rev (rev ?t)" by simp
  also have "\<dots> = rev (takeWhile is_space (rev ?t) @ dropWhile is_space (rev ?t))"
    by (simp only: takeWhile_dropWhile_id)
  also have "\<dots> = strip s @ rev (takeWhile is_space (rev ?t))"
    by (simp only: rev_append strip_def)
  finally show ?thesis by blast
qed

lemma strip_trimmed:
  assumes "strip s \<noteq> []"
  shows "\<not> is_space (hd (strip s)) \<and> \<not> is_space (last (strip s))"
proof -
  obtain w where w: "dropWhile is_space s = strip s @ w" using strip_decompose by blast
  with assms have ne: "dropWhile is_space s \<noteq> []" by simp
  then have "\<not> is_space (hd (dropWhile is_space s))" by (rule hd_dropWhile)
  then have h: "\<not> is_space (hd (strip s))" using w assms by simp
  let ?r = "dropWhile is_space (rev (dropWhile is_space s))"
  have r: "?r \<noteq> []" using assms by (simp add: strip_def)
  then have "\<not> is_space (hd ?r)" by (rule hd_dropWhile)
  moreover have "last (strip s) = hd ?r" using r by (simp add: strip_def last_rev)
  ultimately show ?thesis using h by simp
qed

lemma update_fresh: "k \<notin> fst ` set d \<Longrightarrow> AList.update k v d = d @ [(k, v)]"
  by (induction d) auto

lemma fold_update_keys:
  "fst ` set (fold (\<lambda>k d. AList.update k v d) ks d) = set ks \<union> fst ` set d"
  by (induction ks arbitrary: d) (auto simp: AList.dom_update)

lemma fold_update_distinct:
  "distinct (map fst d) \<Longrightarrow> distinct (map fst (fold (\<lambda>k d. AList.update k v d) ks d))"
  by (induction ks arbitrary: d) (auto simp: AList.distinct_update)

lemma fold_update_map_of:
  "map_of (fold (\<lambda>k d. AList.update k v d) ks d) k = (if k \<in> set ks then Some v else map_of d k)"
  by (induction ks arbitrary: d) (auto simp: AList.update_conv')

lemma fold_update_fresh:
  "distinct ks \<Longrightarrow> set ks \<inter> fst ` set d = {} \<Longrightarrow>
   fold (\<lambda>k d. AList.update k v d) ks d = d @ map (\<lambda>k. (k, v)) ks"
proof (induction ks arbitrary: d)
  case Nil
  show ?case by simp
next
  case (Cons k ks)
  then have "k \<notin> fst ` set d" by auto
  then have upd: "AList.update k v d = d @ [(k, v)]" by (rule update_fresh)
  have "set ks \<inter> fst ` set (d @ [(k, v)]) = {}" using Cons.prems by auto
  with Cons.IH [of "d @ [(k, v)]"] Cons.prems(1) upd show ?case by simp
qed


lemma is_dict_iff: "is_dict r \<longleftrightarrow> (\<exists>d. r = PDict d)"
  by (cases r) simp_all

section \<open>The response parser: properties\<close>

text \<open>
  \<open>parse_response\<close> never raises: the only statement outside its \<open>try\<close> block that
  could, \<open>lines[0]\<close>, runs on a text that starts with three backticks, and such a text
  has a first line.
\<close>

lemma clean_response_total: "\<exists>cleaned. clean_response response_text = Inr cleaned"
proof (cases "startswith (strip response_text) fence")
  case True
  then obtain l ls where "splitlines (strip response_text) = l # ls"
    using splitlines_fence_nonempty by (cases "splitlines (strip response_text)") auto
  with True show ?thesis by (simp add: clean_response_def Let_def)
next
  case False
  then show ?thesis by (simp add: clean_response_def)
qed

lemma parse_response_total: "\<exists>r. parse_response loads response_text categories = Inr r"
proof -
  obtain cleaned where "clean_response response_text = Inr cleaned"
    using clean_response_total by blast
  then show ?thesis
    by (simp add: parse_response_def split: option.split sum.split)
qed

lemma all_absent_dict:
  "\<exists>d. all_absent categories = PDict d \<and> fst ` set d = set categories \<and> distinct (map fst d) \<and>
       (\<forall>c\<in>set categories. map_of d c = Some (PStr []))"
  by (simp add: all_absent_def fold_update_keys fold_update_distinct fold_update_map_of)

lemma fill_missing_dict:
  "\<exists>d'. fill_missing (PDict d) categories = Inr (PDict d') \<and>
        (distinct (map fst d) \<longrightarrow> distinct (map fst d')) \<and>
        fst ` set d' = fst ` set d \<union> set categories \<and>
        (\<forall>k. map_of d' k =
           (case map_of d k of
              Some v \<Rightarrow> Some v
            | None \<Rightarrow> if k \<in> set categories then Some (PStr []) else None))"
proof (induction categories arbitrary: d)
  case Nil
  show ?case by (simp split: option.split)
next
  case (Cons item items)
  show ?case
  proof (cases "item \<in> fst ` set d")
    case True
    from Cons.IH [of d] obtain d' where
      d': "fill_missing (PDict d) items = Inr (PDict d')"
          "distinct (map fst d) \<longrightarrow> distinct (map fst d')"
          "fst ` set d' = fst ` set d \<union> set items"
          "\<forall>k. map_of d' k =
             (case map_of d k of
                Some v \<Rightarrow> Some v
              | None \<Rightarrow> if k \<in> set items then Some (PStr []) else None)"
      by blast
    have n: "map_of d item \<noteq> None" using True by (simp add: map_of_eq_None_iff)
    have "fill_missing (PDict d) (item # items) = Inr (PDict d')"
      using True d'(1) by simp
    moreover have "fst ` set d' = fst ` set d \<union> set (item # items)"
      using d'(3) True by auto
    moreover have "\<forall>k. map_of d' k =
           (case map_of d k of
              Some v \<Rightarrow> Some v
            | None \<Rightarrow> if k \<in> set (item # items) then Some (PStr []) else None)"
      using d'(4) n by (auto split: option.splits)
    ultimately show ?thesis using d'(2) by blast
  next
    case False
    let ?d1 = "AList.update item (PStr []) d"
    from Cons.IH [of ?d1] obtain d' where
      d': "fill_missing (PDict ?d1) items = Inr (PDict d')"
          "distinct (map fst ?d1) \<longrightarrow> distinct (map fst d')"
          "fst ` set d' = fst ` set ?d1 \<union> set items"
          "\<forall>k. map_of d' k =
             (case map_of ?d1 k of
                Some v \<Rightarrow> Some v
              | None \<Rightarrow> if k \<in> set items then Some (PStr []) else None)"
      by blast
    have n: "map_of d item = None" using False by (simp add: map_of_eq_None_iff)
    have "fill_missing (PDict d) (item # items) = Inr (PDict d')"
      using False d'(1) by simp
    moreover have "distinct (map fst d) \<longrightarrow> distinct (map fst d')"
      using d'(2) by (simp add: AList.distinct_update)
    moreover have "fst ` set d' = fst ` set d \<union> set (item # items)"
      using d'(3) by (simp add: AList.dom_update)
    moreover have "\<forall>k. map_of d' k =
           (case map_of d k of
              Some v \<Rightarrow> Some v
            | None \<Rightarrow> if k \<in> set (item # items) then Some (PStr []) else None)"
      using d'(4) n by (auto simp: AList.update_conv' split: option.splits)
    ultimately show ?thesis by blast
  qed
qed

lemma fill_missing_list:
  "\<forall>c\<in>set categories. PStr c \<in> set xs \<Longrightarrow> fill_missing (PList xs) categories = Inr (PList xs)"
  by (induction categories) auto

text \<open>
  What the handler of \<open>parse_response\<close> covers: a text that \<open>json.loads\<close> rejects, a
  decoded value on which the loop raises, and among these every decoded \<open>None\<close>,
  bool, int or float as soon as there is a category.
\<close>

lemma parse_response_malformed:
  assumes "clean_response response_text = Inr cleaned" and "loads cleaned = None"
  shows "parse_response loads response_text categories = Inr (all_absent categories)"
  using assms by (simp add: parse_response_def)

lemma parse_response_loop_raises:
  assumes "clean_response response_text = Inr cleaned" and "loads cleaned = Some v"
    and "fill_missing v categories = Inl e"
  shows "parse_response loads response_text categories = Inr (all_absent categories)"
  using assms by (simp add: parse_response_def)

lemma fill_missing_scalar:
  assumes "categories \<noteq> []" and "v = PNone \<or> v = PBool b \<or> v = PInt i \<or> v = PFloat x"
  shows "fill_missing v categories = Inl TypeError"
  using assms by (cases categories) auto

text \<open>
  A value that leaves the loop is the decoded value itself unless that is a dict: only
  a dict is ever stored into. So a dict returned by \<open>parse_response\<close> holds every
  category, whichever way it was produced.
\<close>

lemma fill_missing_is_dict:
  "fill_missing v categories = Inr r \<Longrightarrow> is_dict r \<Longrightarrow> is_dict v"
proof (induction categories arbitrary: v)
  case Nil
  then show ?case by simp
next
  case (Cons item items)
  then show ?case
    by (cases v) (fastforce split: bool.splits)+
qed

lemma parse_response_dict_complete:
  assumes "parse_response loads response_text categories = Inr (PDict d)"
  shows "set categories \<subseteq> fst ` set d"
proof -
  obtain cleaned where c: "clean_response response_text = Inr cleaned"
    using clean_response_total by blast
  obtain d0 :: "(ustr \<times> 'a py) list" where d0: "all_absent categories = PDict d0"
    "fst ` set d0 = set categories"
    using all_absent_dict by blast
  show ?thesis
  proof (cases "loads cleaned")
    case None
    with assms c d0 show ?thesis by (simp add: parse_response_def)
  next
    case (Some v)
    show ?thesis
    proof (cases "fill_missing v categories")
      case (Inl e)
      with assms c Some d0 show ?thesis by (simp add: parse_response_def)
    next
      case (Inr r)
      with assms c Some have r: "r = PDict d" by (simp add: parse_response_def)
      with Inr have "is_dict v" using fill_missing_is_dict by fastforce
      then obtain dv where "v = PDict dv" by (auto simp: is_dict_iff)
      with Inr r fill_missing_dict [of dv categories] show ?thesis by auto
    qed
  qed
qed

text \<open>The texts of the examples are clean already: they carry no space and no fence.\<close>

lemma clean_scenario_fragment1: "clean_response scenario_fragment1 = Inr scenario_fragment1"
  by (simp add: clean_response_def strip_def startswith_def fence_def scenario_fragment1_def
      u_def is_space_def)

lemma clean_scenario_fragment2: "clean_response scenario_fragment2 = Inr scenario_fragment2"
  by (simp add: clean_response_def strip_def startswith_def fence_def scenario_fragment2_def
      u_def is_space_def)

lemma clean_list_fragment: "clean_response list_fragment = Inr list_fragment"
  by (simp add: clean_response_def strip_def startswith_def fence_def list_fragment_def
      u_def is_space_def)

lemma loads_scenario_fragment1:
  "scenario_loads scenario_fragment1 = Some (PDict [(u ''grammar'', PStr (u ''1''))])"
  by (simp add: scenario_loads_def)

lemma loads_scenario_fragment2:
  "scenario_loads scenario_fragment2 = Some (PDict [(u ''pronunciation'', PStr (u ''1''))])"
  by (simp add: scenario_loads_def scenario_fragment1_def scenario_fragment2_def u_def)

lemma loads_list_fragment:
  "scenario_loads list_fragment = Some (PList [PStr (u ''grammar''), PStr (u ''pronunciation'')])"
  by (simp add: scenario_loads_def scenario_fragment1_def scenario_fragment2_def
      list_fragment_def u_def)



text \<open>
  Claim C3: a fragment whose content is JSON but not an object should give the
  all-absent dict. The code gets there only through a \<open>TypeError\<close> of the loop: when
  the content decodes to a list that holds every category as a string, \<open>in\<close> is true
  for each of them, nothing is stored, nothing raises, and \<open>parse_response\<close> returns
  the list itself.
\<close>

theorem parse_response_list_returned:
  assumes "clean_response response_text = Inr cleaned"
    and "loads cleaned = Some (PList xs)"
    and "\<forall>c\<in>set categories. PStr c \<in> set xs"
  shows "parse_response loads response_text categories = Inr (PList xs) \<and>
         PList xs \<noteq> all_absent categories"
  using assms by (simp add: parse_response_def fill_missing_list all_absent_def)

theorem parse_response_list_returned_witness:
  "clean_response list_fragment = Inr list_fragment \<and>
   scenario_loads list_fragment =
     Some (PList [PStr (u ''grammar''), PStr (u ''pronunciation'')]) \<and>
   list_all (\<lambda>c. PStr c \<in> set [PStr (u ''grammar''), PStr (u ''pronunciation'') :: unit py])
     scenario_categories \<and>
   parse_response scenario_loads list_fragment scenario_categories =
     Inr (PList [PStr (u ''grammar''), PStr (u ''pronunciation'')])"
proof -
  have h3: "\<forall>c\<in>set scenario_categories.
              PStr c \<in> set [PStr (u ''grammar''), PStr (u ''pronunciation'') :: unit py]"
    by (simp add: scenario_categories_def)
  from parse_response_list_returned [where loads = scenario_loads,
      OF clean_list_fragment loads_list_fragment h3]
  have "parse_response scenario_loads list_fragment scenario_categories =
          Inr (PList [PStr (u ''grammar''), PStr (u ''pronunciation'')])"
    by simp
  then show ?thesis
    using clean_list_fragment loads_list_fragment h3 by (simp add: list_all_iff)
qed

section \<open>The batch classifier: properties\<close>

lemma pad_results_eq:
  "pad_results results dialogues categories =
     results @ replicate (length dialogues - length results) (all_absent categories)"
proof (induction results dialogues categories rule: pad_results.induct)
  case (1 results dialogues categories)
  show ?case
  proof (cases "length results < length dialogues")
    case True
    then have "length dialogues - length results = Suc (length dialogues - Suc (length results))"
      by simp
    with True "1" show ?thesis
      by (subst pad_results.simps) (simp add: replicate_app_Cons_same)
  next
    case False
    then show ?thesis by (subst pad_results.simps) simp
  qed
qed

lemma parse_parts_eq:
  "\<exists>parsed. map (\<lambda>seg. parse_response loads seg categories)
                 (filter (\<lambda>seg. seg \<noteq> []) (map strip parts)) = map Inr parsed \<and>
            parse_parts loads parts categories results = Inr (results @ parsed)"
proof (induction parts arbitrary: results)
  case Nil
  show ?case by simp
next
  case (Cons part parts)
  show ?case
  proof (cases "strip part = []")
    case True
    with Cons.IH [of results] show ?thesis by simp
  next
    case False
    obtain r where r: "parse_response loads (strip part) categories = Inr r"
      using parse_response_total by blast
    from Cons.IH [of "results @ [r]"] obtain parsed where
      p: "map (\<lambda>seg. parse_response loads seg categories)
            (filter (\<lambda>seg. seg \<noteq> []) (map strip parts)) = map Inr parsed"
        "parse_parts loads parts categories (results @ [r]) = Inr ((results @ [r]) @ parsed)"
      by blast
    have "map (\<lambda>seg. parse_response loads seg categories)
            (filter (\<lambda>seg. seg \<noteq> []) (map strip (part # parts))) = map Inr (r # parsed)"
      using False r p(1) by simp
    moreover have "parse_parts loads (part # parts) categories results = Inr (results @ r # parsed)"
      using False r p(2) by simp
    ultimately show ?thesis by blast
  qed
qed

text \<open>The scenario, step by step: the split of the response and the two parsed records.\<close>

lemma scenario_split:
  "str_split scenario_response (u ''-----'') = Inr [scenario_fragment1, scenario_fragment2]"
  by (simp add: str_split_def scenario_response_def scenario_fragment1_def
      scenario_fragment2_def u_def)

lemma strip_scenario_fragments:
  "strip scenario_fragment1 = scenario_fragment1" "strip scenario_fragment2 = scenario_fragment2"
  "strip list_fragment = list_fragment"
  "scenario_fragment1 \<noteq> []" "scenario_fragment2 \<noteq> []" "list_fragment \<noteq> []"
  by (simp_all add: strip_def scenario_fragment1_def scenario_fragment2_def list_fragment_def
      u_def is_space_def)

lemma parse_scenario_fragment1:
  "parse_response scenario_loads scenario_fragment1 scenario_categories = Inr scenario_record1"
  by (simp add: parse_response_def clean_scenario_fragment1 loads_scenario_fragment1)
    (simp add: scenario_categories_def scenario_record1_def u_def)

lemma parse_scenario_fragment2:
  "parse_response scenario_loads scenario_fragment2 scenario_categories = Inr scenario_record2"
  by (simp add: parse_response_def clean_scenario_fragment2 loads_scenario_fragment2)
    (simp add: scenario_categories_def scenario_record2_def u_def)

lemma parse_list_fragment:
  "parse_response scenario_loads list_fragment scenario_categories =
     Inr (PList [PStr (u ''grammar''), PStr (u ''pronunciation'')])"
  by (simp add: parse_response_def clean_list_fragment loads_list_fragment)
    (simp add: scenario_categories_def)

lemma all_absent_scenario: "all_absent scenario_categories = scenario_record3"
  by (simp add: all_absent_def scenario_categories_def scenario_record3_def u_def)



text \<open>
  Claim C2: on a response of the model, \<open>process_batch_dialogue\<close> splits the text on
  the delimiter, strips every part, drops the parts that are empty then, and parses
  the others in order, which gives \<open>parsed\<close>. With fewer parsed records than texts it
  returns them followed by all-absent records up to the number of texts; otherwise it
  returns the first parsed records, as many as there are texts. The all-absent record
  has the categories as its keys, each with the value \<open>""\<close>.
\<close>

theorem process_batch_dialogue_reconcile:
  assumes "generate_content (content dialogues target_language categories delimiter) =
             Inr response_text"
    and "delimiter \<noteq> []"
  shows "\<exists>parts parsed.
           str_split response_text delimiter = Inr parts \<and>
           map (\<lambda>seg. parse_response (loads :: ustr \<Rightarrow> 'a py option) seg categories)
             (filter (\<lambda>seg. seg \<noteq> []) (map strip parts)) = map Inr parsed \<and>
           process_batch_dialogue loads generate_content dialogues target_language categories
             delimiter =
             Inr (if length parsed < length dialogues
                  then parsed @ replicate (length dialogues - length parsed) (all_absent categories)
                  else take (length dialogues) parsed) \<and>
           (\<exists>d. (all_absent categories :: 'a py) = PDict d \<and> fst ` set d = set categories \<and>
                (\<forall>c\<in>set categories. map_of d c = Some (PStr [])))"
proof -
  let ?parts = "split_from delimiter [] response_text"
  have s: "str_split response_text delimiter = Inr ?parts"
    using assms(2) by (simp add: str_split_def)
  obtain parsed where
    p: "map (\<lambda>seg. parse_response loads seg categories)
          (filter (\<lambda>seg. seg \<noteq> []) (map strip ?parts)) = map Inr parsed"
       "parse_parts loads ?parts categories [] = Inr ([] @ parsed)"
    using parse_parts_eq by blast
  have "process_batch_dialogue loads generate_content dialogues target_language categories
          delimiter =
          Inr (if length parsed < length dialogues
               then parsed @ replicate (length dialogues - length parsed) (all_absent categories)
               else take (length dialogues) parsed)"
    using assms(1) s p(2) by (simp add: process_batch_dialogue_def pad_results_eq Let_def)
  moreover obtain d :: "(ustr \<times> 'a py) list" where
    "all_absent categories = PDict d" "fst ` set d = set categories"
    "\<forall>c\<in>set categories. map_of d c = Some (PStr [])"
    using all_absent_dict by blast
  ultimately show ?thesis using s p(1) by blast
qed

theorem process_batch_dialogue_reconcile_witness:
  "((\<lambda>c. Inr scenario_response) :: ustr \<Rightarrow> unit + ustr)
     (content scenario_texts (u ''English'') scenario_categories (u ''-----'')) =
     Inr scenario_response \<and>
   u ''-----'' \<noteq> [] \<and>
   process_batch_dialogue scenario_loads ((\<lambda>c. Inr scenario_response) :: ustr \<Rightarrow> unit + ustr)
     scenario_texts (u ''English'') scenario_categories (u ''-----'') =
     Inr [scenario_record1, scenario_record2, scenario_record3]"
proof -
  let ?g = "(\<lambda>c. Inr scenario_response) :: ustr \<Rightarrow> unit + ustr"
  have h1: "?g (content scenario_texts (u ''English'') scenario_categories (u ''-----'')) =
              Inr scenario_response"
    by simp
  have h2: "u ''-----'' \<noteq> []" by (simp add: u_def)
  from process_batch_dialogue_reconcile [where generate_content = ?g and loads = scenario_loads,
      OF h1 h2]
  obtain parts parsed where
    a: "str_split scenario_response (u ''-----'') = Inr parts"
    and b: "map (\<lambda>seg. parse_response scenario_loads seg scenario_categories)
              (filter (\<lambda>seg. seg \<noteq> []) (map strip parts)) = map Inr parsed"
    and c: "process_batch_dialogue scenario_loads ?g scenario_texts (u ''English'')
              scenario_categories (u ''-----'') =
              Inr (if length parsed < length scenario_texts
                   then parsed @ replicate (length scenario_texts - length parsed)
                          (all_absent scenario_categories)
                   else take (length scenario_texts) parsed)"
    by blast
  have parts: "parts = [scenario_fragment1, scenario_fragment2]"
    using a by (simp add: scenario_split)
  have "[Inr scenario_record1, Inr scenario_record2] =
          map (Inr :: unit py \<Rightarrow> py_error + unit py) parsed"
    using b
    by (simp add: parts strip_scenario_fragments parse_scenario_fragment1 parse_scenario_fragment2)
  then have parsed: "parsed = [scenario_record1, scenario_record2]"
    by (auto simp: Cons_eq_map_conv)
  have "process_batch_dialogue scenario_loads ?g scenario_texts (u ''English'')
          scenario_categories (u ''-----'') =
          Inr [scenario_record1, scenario_record2, scenario_record3]"
    using c by (simp add: parsed scenario_texts_def all_absent_scenario)
  with h1 h2 show ?thesis by simp
qed



text \<open>
  Claim C6: every record of the pipeline should hold an entry for every category.
  On the response \<open>["grammar","pronunciation"]\<close> the one record returned is the
  decoded list, which has no entries at all, and counting over it raises the
  \<open>AttributeError\<close> of \<open>result.get\<close>.
\<close>

theorem process_batch_dialogue_list_record:
  "process_batch_dialogue scenario_loads ((\<lambda>c. Inr list_fragment) :: ustr \<Rightarrow> unit + ustr)
     [u ''a''] (u ''English'') scenario_categories (u ''-----'') =
     Inr [PList [PStr (u ''grammar''), PStr (u ''pronunciation'')]] \<and>
   is_dict (PList [PStr (u ''grammar''), PStr (u ''pronunciation'')] :: unit py) = False \<and>
   calculate_category_counts [PList [PStr (u ''grammar''), PStr (u ''pronunciation'')] :: unit py]
     scenario_categories = Inl AttributeError"
proof -
  have "str_split list_fragment (u ''-----'') = Inr [list_fragment]"
    by (simp add: str_split_def list_fragment_def u_def)
  then have "process_batch_dialogue scenario_loads
               ((\<lambda>c. Inr list_fragment) :: ustr \<Rightarrow> unit + ustr)
               [u ''a''] (u ''English'') scenario_categories (u ''-----'') =
               Inr [PList [PStr (u ''grammar''), PStr (u ''pronunciation'')]]"
    by (simp add: process_batch_dialogue_def strip_scenario_fragments parse_list_fragment
        pad_results_eq)
  moreover have "calculate_category_counts
                   [PList [PStr (u ''grammar''), PStr (u ''pronunciation'')] :: unit py]
                   scenario_categories = Inl AttributeError"
    by (simp add: calculate_category_counts_def scenario_categories_def)
  ultimately show ?thesis by simp
qed

section \<open>Aggregation: properties\<close>

lemma zero_counts_distinct:
  "distinct categories \<Longrightarrow> zero_counts categories = map (\<lambda>c. (c, 0)) categories"
  using fold_update_fresh [of categories "[]" 0] by (simp add: zero_counts_def)

lemma py_get_flag:
  "py_get (PDict d) c = Inr v \<Longrightarrow> v = PStr (u ''1'') \<longleftrightarrow> flag_is_one (PDict d) c"
  by (auto simp: flag_is_one_def split: option.splits)

lemma count_record_dict:
  assumes "distinct cs" and "set cs \<subseteq> fst ` set counts"
  shows "\<exists>counts'. count_record (PDict d) cs counts = Inr counts' \<and>
           map fst counts' = map fst counts \<and>
           (\<forall>k. map_of counts' k =
              (if k \<in> set cs \<and> flag_is_one (PDict d) k
               then map_option (\<lambda>n. n + 1) (map_of counts k) else map_of counts k))"
  using assms
proof (induction cs arbitrary: counts)
  case Nil
  show ?case by simp
next
  case (Cons c cs)
  obtain v where v: "py_get (PDict d) c = Inr v" by simp
  show ?case
  proof (cases "flag_is_one (PDict d) c")
    case True
    from Cons.prems(2) obtain n where n: "map_of counts c = Some n"
      by (cases "map_of counts c") (auto simp: map_of_eq_None_iff)
    let ?c1 = "AList.update c (n + 1) counts"
    have keys1: "map fst ?c1 = map fst counts"
      using Cons.prems(2) by (simp add: AList.update_keys)
    then have sub: "set cs \<subseteq> fst ` set ?c1"
      using Cons.prems(2) by (metis list.set_map set_subset_Cons subset_trans)
    from Cons.IH [of ?c1] Cons.prems(1) sub obtain counts' where
      c': "count_record (PDict d) cs ?c1 = Inr counts'"
          "map fst counts' = map fst ?c1"
          "\<forall>k. map_of counts' k =
              (if k \<in> set cs \<and> flag_is_one (PDict d) k
               then map_option (\<lambda>n. n + 1) (map_of ?c1 k) else map_of ?c1 k)"
      by auto
    have "count_record (PDict d) (c # cs) counts = Inr counts'"
      using True v py_get_flag [OF v] n c'(1) by (simp add: increment_def)
    moreover have "map fst counts' = map fst counts" using c'(2) keys1 by simp
    moreover have "\<forall>k. map_of counts' k =
              (if k \<in> set (c # cs) \<and> flag_is_one (PDict d) k
               then map_option (\<lambda>n. n + 1) (map_of counts k) else map_of counts k)"
      using c'(3) Cons.prems(1) True n by (auto simp: AList.update_conv')
    ultimately show ?thesis by blast
  next
    case False
    from Cons.IH [of counts] Cons.prems obtain counts' where
      c': "count_record (PDict d) cs counts = Inr counts'"
          "map fst counts' = map fst counts"
          "\<forall>k. map_of counts' k =
              (if k \<in> set cs \<and> flag_is_one (PDict d) k
               then map_option (\<lambda>n. n + 1) (map_of counts k) else map_of counts k)"
      by auto
    have "count_record (PDict d) (c # cs) counts = Inr counts'"
      using False v py_get_flag [OF v] c'(1) by simp
    moreover have "\<forall>k. map_of counts' k =
              (if k \<in> set (c # cs) \<and> flag_is_one (PDict d) k
               then map_option (\<lambda>n. n + 1) (map_of counts k) else map_of counts k)"
      using c'(3) False by auto
    ultimately show ?thesis using c'(2) by blast
  qed
qed

lemma count_records_dicts:
  assumes "distinct categories" and "set categories \<subseteq> fst ` set counts"
    and "\<forall>r\<in>set results. \<exists>d. r = PDict d"
  shows "\<exists>counts'. count_records results categories counts = Inr counts' \<and>
           map fst counts' = map fst counts \<and>
           (\<forall>k\<in>set categories. map_of counts' k =
              map_option (\<lambda>n. n + count_flagged results k) (map_of counts k))"
  using assms
proof (induction results arbitrary: counts)
  case Nil
  show ?case by (simp add: count_flagged_def option.map_ident)
next
  case (Cons r results)
  from Cons.prems(3) obtain d where d: "r = PDict d" by auto
  from count_record_dict [OF Cons.prems(1,2), of d] obtain c1 where
    c1: "count_record (PDict d) categories counts = Inr c1"
        "map fst c1 = map fst counts"
        "\<forall>k. map_of c1 k =
              (if k \<in> set categories \<and> flag_is_one (PDict d) k
               then map_option (\<lambda>n. n + 1) (map_of counts k) else map_of counts k)"
    by blast
  have sub: "set categories \<subseteq> fst ` set c1"
    using Cons.prems(2) c1(2) by (metis list.set_map)
  from Cons.IH [OF Cons.prems(1) sub] Cons.prems(3) obtain c2 where
    c2: "count_records results categories c1 = Inr c2"
        "map fst c2 = map fst c1"
        "\<forall>k\<in>set categories. map_of c2 k =
              map_option (\<lambda>n. n + count_flagged results k) (map_of c1 k)"
    by auto
  have "count_records (r # results) categories counts = Inr c2"
    using d c1(1) c2(1) by simp
  moreover have "map fst c2 = map fst counts" using c1(2) c2(2) by simp
  moreover have "\<forall>k\<in>set categories. map_of c2 k =
              map_option (\<lambda>n. n + count_flagged (r # results) k) (map_of counts k)"
  proof
    fix k assume k: "k \<in> set categories"
    show "map_of c2 k = map_option (\<lambda>n. n + count_flagged (r # results) k) (map_of counts k)"
      using c2(3) c1(3) k d
      by (cases "map_of counts k") (auto simp: count_flagged_def)
  qed
  ultimately show ?case by blast
qed

lemma counts_of_dicts:
  assumes "distinct categories" and "\<forall>r\<in>set results. \<exists>d. r = PDict d"
  shows "\<exists>counts. calculate_category_counts results categories = Inr counts \<and>
           map fst counts = categories \<and>
           (\<forall>c\<in>set categories. map_of counts c = Some (count_flagged results c)) \<and>
           (results = [] \<longrightarrow> (\<forall>c\<in>set categories. map_of counts c = Some 0))"
proof -
  let ?z = "zero_counts categories"
  have z: "?z = map (\<lambda>c. (c, 0)) categories"
    using assms(1) by (rule zero_counts_distinct)
  then have zk: "map fst ?z = categories" by (simp add: comp_def)
  then have sub: "set categories \<subseteq> fst ` set ?z" by (metis list.set_map subset_refl)
  have z0: "\<forall>c\<in>set categories. map_of ?z c = Some 0"
    by (simp add: z map_of_map_restrict)
  from count_records_dicts [OF assms(1) sub assms(2)] obtain counts where
    c: "count_records results categories ?z = Inr counts"
       "map fst counts = map fst ?z"
       "\<forall>k\<in>set categories. map_of counts k =
          map_option (\<lambda>n. n + count_flagged results k) (map_of ?z k)"
    by blast
  have "calculate_category_counts results categories = Inr counts"
    using c(1) by (simp add: calculate_category_counts_def)
  moreover have "map fst counts = categories" using c(2) zk by simp
  moreover have v: "\<forall>c\<in>set categories. map_of counts c = Some (count_flagged results c)"
    using c(3) z0 by simp
  moreover have "results = [] \<longrightarrow> (\<forall>c\<in>set categories. map_of counts c = Some 0)"
    using v by (simp add: count_flagged_def)
  ultimately show ?thesis by blast
qed

lemma count_flagged_le: "0 \<le> count_flagged results c \<and> count_flagged results c \<le> int (length results)"
  by (simp add: count_flagged_def)

text \<open>
  Claim C7, as stated, for every category list: the count of a category is the number
  of records whose flag for it is \<open>"1"\<close>. The loop of \<open>calculate_category_counts\<close>
  visits a category once for each time the list names it, so with the list
  \<open>["a", "a"]\<close> the one record flagged \<open>"1"\<close> is counted twice.
\<close>

theorem calculate_category_counts_repeated_category:
  "calculate_category_counts [PDict [(u ''a'', PStr (u ''1''))] :: unit py] [u ''a'', u ''a''] =
     Inr [(u ''a'', 2)] \<and>
   count_flagged [PDict [(u ''a'', PStr (u ''1''))] :: unit py] (u ''a'') = 1"
  by (simp add: calculate_category_counts_def zero_counts_def increment_def count_flagged_def
      flag_is_one_def)

text \<open>
  Claim C7, amended: for every list of records (dicts) and every category list that
  names no category twice, \<open>calculate_category_counts\<close> returns a dict whose keys are
  the categories, in their order, where the value of each category is the number of
  records whose flag for it is exactly \<open>"1"\<close> (a missing key and any other value do
  not count); so every category is there even with the count 0, and with no records
  every count is 0.
\<close>

theorem calculate_category_counts_correct:
  assumes "distinct categories" and "\<forall>r\<in>set results. is_dict r"
  shows "\<exists>counts. calculate_category_counts results categories = Inr counts \<and>
           map fst counts = categories \<and>
           (\<forall>c\<in>set categories. map_of counts c = Some (count_flagged results c)) \<and>
           (results = [] \<longrightarrow> (\<forall>c\<in>set categories. map_of counts c = Some 0))"
  using assms counts_of_dicts [of categories results] by (simp add: is_dict_iff)

theorem calculate_category_counts_correct_witness:
  "distinct scenario_categories \<and>
   list_all is_dict [scenario_record1, scenario_record2, scenario_record3] \<and>
   (\<exists>counts.
      calculate_category_counts [scenario_record1, scenario_record2, scenario_record3]
        scenario_categories = Inr counts \<and>
      map fst counts = scenario_categories \<and>
      map_of counts (u ''grammar'') = Some 1 \<and>
      map_of counts (u ''pronunciation'') = Some 1)"
proof -
  let ?rs = "[scenario_record1, scenario_record2, scenario_record3]"
  have h1: "distinct scenario_categories" by (simp add: scenario_categories_def u_def)
  have h2: "\<forall>r\<in>set ?rs. is_dict r"
    by (simp add: scenario_record1_def scenario_record2_def scenario_record3_def)
  from calculate_category_counts_correct [OF h1 h2] obtain counts where
    c: "calculate_category_counts ?rs scenario_categories = Inr counts"
       "map fst counts = scenario_categories"
       "\<forall>c\<in>set scenario_categories. map_of counts c = Some (count_flagged ?rs c)"
    by blast
  have "count_flagged ?rs (u ''grammar'') = 1" "count_flagged ?rs (u ''pronunciation'') = 1"
    by (simp_all add: count_flagged_def flag_is_one_def scenario_record1_def
        scenario_record2_def scenario_record3_def u_def)
  with c(3) have "map_of counts (u ''grammar'') = Some 1"
    "map_of counts (u ''pronunciation'') = Some 1"
    by (simp_all add: scenario_categories_def)
  with c(1,2) h1 h2 show ?thesis by (simp add: list_all_iff)
qed

text \<open>
  Claim C10, as stated, for every category list: no count exceeds the number of
  records. With the category list \<open>["a", "a"]\<close> and one record flagged \<open>"1"\<close> the
  count is 2.
\<close>

theorem calculate_category_counts_exceeds_records:
  "calculate_category_counts [PDict [(u ''a'', PStr (u ''1''))] :: unit py] [u ''a'', u ''a''] =
     Inr [(u ''a'', 2)] \<and>
   \<not> 2 \<le> int (length [PDict [(u ''a'', PStr (u ''1''))] :: unit py])"
  by (simp add: calculate_category_counts_def zero_counts_def increment_def)

text \<open>
  Claim C10, amended: for every list of records (dicts) and every category list that
  names no category twice, each value of the dict that \<open>calculate_category_counts\<close>
  returns is an integer from 0 to the number of records.
\<close>

theorem calculate_category_counts_bounds:
  assumes "distinct categories" and "\<forall>r\<in>set results. is_dict r"
  shows "\<exists>counts. calculate_category_counts results categories = Inr counts \<and>
           (\<forall>(c, n)\<in>set counts. 0 \<le> n \<and> n \<le> int (length results))"
proof -
  from assms counts_of_dicts [of categories results] obtain counts where
    c: "calculate_category_counts results categories = Inr counts"
       "map fst counts = categories"
       "\<forall>c\<in>set categories. map_of counts c = Some (count_flagged results c)"
    by (auto simp: is_dict_iff)
  have "\<forall>(k, n)\<in>set counts. 0 \<le> n \<and> n \<le> int (length results)"
  proof (clarify)
    fix k n assume kn: "(k, n) \<in> set counts"
    then have "k \<in> set categories" using c(2) by (metis fst_conv image_eqI list.set_map)
    then have "map_of counts k = Some (count_flagged results k)" using c(3) by simp
    moreover have "map_of counts k = Some n"
      using kn c(2) assms(1) by simp
    ultimately have "n = count_flagged results k" by simp
    then show "0 \<le> n \<and> n \<le> int (length results)" using count_flagged_le by simp
  qed
  with c(1) show ?thesis by blast
qed

theorem calculate_category_counts_bounds_witness:
  "distinct scenario_categories \<and>
   list_all is_dict [scenario_record1, scenario_record1] \<and>
   calculate_category_counts [scenario_record1, scenario_record1] scenario_categories =
     Inr [(u ''grammar'', 2), (u ''pronunciation'', 0)] \<and>
   (2 :: int) \<le> int (length [scenario_record1, scenario_record1])"
proof -
  let ?rs = "[scenario_record1, scenario_record1]"
  have h1: "distinct scenario_categories" by (simp add: scenario_categories_def u_def)
  have h2: "\<forall>r\<in>set ?rs. is_dict r" by (simp add: scenario_record1_def)
  from calculate_category_counts_bounds [OF h1 h2] obtain counts where
    "calculate_category_counts ?rs scenario_categories = Inr counts"
    "\<forall>(c, n)\<in>set counts. 0 \<le> n \<and> n \<le> int (length ?rs)"
    by blast
  moreover have "calculate_category_counts ?rs scenario_categories =
                   Inr [(u ''grammar'', 2), (u ''pronunciation'', 0)]"
    by (simp add: calculate_category_counts_def zero_counts_def increment_def
        scenario_categories_def scenario_record1_def u_def)
  ultimately show ?thesis using h1 h2 by (simp add: list_all_iff)
qed

text \<open>
  Claim C8: for a record (a dict in the store) and every category list,
  \<open>format_category_result\<close> returns a new dict whose keys are the categories, with
  the display glyph for a category whose flag in the record is \<open>"1"\<close> and the empty
  string for every other category, a missing key included. The record is the same
  after the call, as is every object the store held before it.
\<close>

lemma format_loop_dict:
  assumes "result < length st" and "formatted < length st" and "result \<noteq> formatted"
    and "st ! result = PDict d" and "st ! formatted = PDict fm0"
  shows "\<exists>fm. format_loop st result formatted categories = Inr (st[formatted := PDict fm]) \<and>
           fst ` set fm = fst ` set fm0 \<union> set categories \<and>
           (\<forall>c. map_of fm c =
              (if c \<in> set categories
               then Some (PStr (if map_of d c = Some (PStr (u ''1'')) then glyph else []))
               else map_of fm0 c))"
  using assms
proof (induction categories arbitrary: st fm0)
  case Nil
  have "st[formatted := PDict fm0] = st"
    using Nil.prems(5) by (metis list_update_id)
  then show ?case by (intro exI [of _ fm0]) simp
next
  case (Cons category rest)
  let ?v = "PStr (if map_of d category = Some (PStr (u ''1'')) then glyph else [])"
  let ?fm1 = "AList.update category ?v fm0"
  let ?st1 = "st[formatted := PDict ?fm1]"
  have g: "py_get (st ! result) category =
             Inr (case map_of d category of None \<Rightarrow> PNone | Some v \<Rightarrow> v)"
    using Cons.prems(4) by simp
  have flag: "((case map_of d category of None \<Rightarrow> PNone | Some v \<Rightarrow> v) = PStr (u ''1'')) =
                (map_of d category = Some (PStr (u ''1'')))"
    by (simp split: option.split)
  have step: "format_loop st result formatted (category # rest) =
                format_loop ?st1 result formatted rest"
    using g flag Cons.prems(5) by (simp split: if_splits)
  have p1: "result < length ?st1" "formatted < length ?st1" using Cons.prems(1,2) by simp_all
  have p4: "?st1 ! result = PDict d" using Cons.prems(3,4) by simp
  have p5: "?st1 ! formatted = PDict ?fm1" using Cons.prems(2) by simp
  from Cons.IH [OF p1 Cons.prems(3) p4 p5] obtain fm where
    fm: "format_loop ?st1 result formatted rest = Inr (?st1[formatted := PDict fm])"
        "fst ` set fm = fst ` set ?fm1 \<union> set rest"
        "\<forall>c. map_of fm c =
              (if c \<in> set rest
               then Some (PStr (if map_of d c = Some (PStr (u ''1'')) then glyph else []))
               else map_of ?fm1 c)"
    by blast
  have "format_loop st result formatted (category # rest) = Inr (st[formatted := PDict fm])"
    using step fm(1) by simp
  moreover have "fst ` set fm = fst ` set fm0 \<union> set (category # rest)"
    using fm(2) by (simp add: AList.dom_update)
  moreover have "\<forall>c. map_of fm c =
              (if c \<in> set (category # rest)
               then Some (PStr (if map_of d c = Some (PStr (u ''1'')) then glyph else []))
               else map_of fm0 c)"
    using fm(3) by (simp add: AList.update_conv')
  ultimately show ?case by blast
qed

theorem format_category_result_frame:
  assumes "result < length st" and "st ! result = PDict d"
  shows "\<exists>st' formatted fm.
           format_category_result st result categories = Inr (st', formatted) \<and>
           st' ! result = PDict d \<and>
           take (length st) st' = st \<and>
           st' ! formatted = PDict fm \<and>
           fst ` set fm = set categories \<and>
           (\<forall>c\<in>set categories.
              map_of fm c =
                Some (PStr (if map_of d c = Some (PStr (u ''1'')) then glyph else [])))"
proof -
  let ?st1 = "st @ [PDict []]"
  have a: "result < length ?st1" "length st < length ?st1" "result \<noteq> length st"
    using assms(1) by simp_all
  have b: "?st1 ! result = PDict d" using assms by (simp add: nth_append)
  have c: "?st1 ! length st = PDict []" by simp
  from format_loop_dict [OF a b c, of categories] obtain fm where
    fm: "format_loop ?st1 result (length st) categories = Inr (?st1[length st := PDict fm])"
        "fst ` set fm = set categories"
        "\<forall>c. map_of fm c =
              (if c \<in> set categories
               then Some (PStr (if map_of d c = Some (PStr (u ''1'')) then glyph else []))
               else None)"
    by auto
  let ?st' = "st @ [PDict fm]"
  have eq: "?st1[length st := PDict fm] = ?st'" by simp
  have "format_category_result st result categories = Inr (?st', length st)"
    using fm(1) eq by (simp add: format_category_result_def Let_def)
  moreover have "?st' ! result = PDict d" using assms by (simp add: nth_append)
  moreover have "take (length st) ?st' = st" by simp
  moreover have "?st' ! length st = PDict fm" by simp
  moreover have "fst ` set fm = set categories" using fm(2) by simp
  moreover have "\<forall>c\<in>set categories.
              map_of fm c =
                Some (PStr (if map_of d c = Some (PStr (u ''1'')) then glyph else []))"
    using fm(3) by simp
  ultimately show ?thesis by blast
qed

theorem format_category_result_frame_witness:
  "(0 :: nat) < length [scenario_record1] \<and>
   [scenario_record1] ! 0 = PDict [(u ''grammar'', PStr (u ''1'')), (u ''pronunciation'', PStr [])] \<and>
   format_category_result [scenario_record1] 0 scenario_categories =
     Inr ([scenario_record1,
           PDict [(u ''grammar'', PStr glyph), (u ''pronunciation'', PStr [])]], 1)"
proof -
  let ?d = "[(u ''grammar'', PStr (u ''1'')), (u ''pronunciation'', PStr [])] :: (ustr \<times> unit py) list"
  have h1: "(0 :: nat) < length [scenario_record1]" by simp
  have h2: "[scenario_record1] ! 0 = PDict ?d" by (simp add: scenario_record1_def)
  from format_category_result_frame [OF h1 h2, of scenario_categories]
  obtain st' formatted fm where
    "format_category_result [scenario_record1] 0 scenario_categories = Inr (st', formatted)"
    "st' ! 0 = PDict ?d"
    by blast
  moreover have "format_category_result [scenario_record1] 0 scenario_categories =
     Inr ([scenario_record1,
           PDict [(u ''grammar'', PStr glyph), (u ''pronunciation'', PStr [])]], 1)"
    by (simp add: format_category_result_def scenario_categories_def scenario_record1_def u_def)
  ultimately show ?thesis using h1 h2 by simp
qed

section \<open>The category list: properties\<close>

lemma default_categories_trimmed:
  "default_categories \<noteq> [] \<and>
   (\<forall>c\<in>set default_categories. c \<noteq> [] \<and> \<not> is_space (hd c) \<and> \<not> is_space (last c))"
  by (simp add: default_categories_def is_space_def)

text \<open>
  Claim C9, as stated: after an update every entry of the category list is unique.
  The handler keeps a line that comes twice: the text of the two lines \<open>a\<close> and \<open>a\<close>
  gives a list that names \<open>a\<close> twice.
\<close>

theorem update_categories_keeps_repeated_line:
  "update_categories default_categories (u ''a'' @ [10] @ u ''a'') =
     Inr ([u ''a'', u ''a''], Success 2) \<and>
   \<not> distinct [u ''a'', u ''a'']"
  by (simp add: update_categories_def str_split_def strip_def is_space_def u_def)

text \<open>
  Claim C9, amended: when the category list is not empty and each of its entries is a
  non-empty string with no whitespace at either end, it is so again after an update
  from the text area, whose lines are stripped and dropped when empty; the entries
  need not be unique. An update whose lines are all empty after stripping is rejected
  and leaves the list as it was; any other update replaces it by the stripped
  non-empty lines. The list a session starts with is of that kind.
\<close>

theorem update_categories_invariant:
  assumes "custom_categories \<noteq> []"
    and "\<forall>c\<in>set custom_categories. c \<noteq> [] \<and> \<not> is_space (hd c) \<and> \<not> is_space (last c)"
  shows "\<exists>lines cats n.
           str_split categories_text [10] = Inr lines \<and>
           update_categories custom_categories categories_text = Inr (cats, n) \<and>
           cats \<noteq> [] \<and>
           (\<forall>c\<in>set cats. c \<noteq> [] \<and> \<not> is_space (hd c) \<and> \<not> is_space (last c)) \<and>
           ((\<forall>l\<in>set lines. strip l = []) \<longrightarrow> cats = custom_categories \<and> n = Error) \<and>
           (\<not> (\<forall>l\<in>set lines. strip l = []) \<longrightarrow>
              cats = map strip (filter (\<lambda>l. strip l \<noteq> []) lines) \<and> n = Success (length cats))"
proof -
  let ?lines = "split_from [10] [] categories_text"
  let ?new = "map strip (filter (\<lambda>cat. strip cat \<noteq> []) ?lines)"
  have s: "str_split categories_text [10] = Inr ?lines" by (simp add: str_split_def)
  have new: "\<forall>c\<in>set ?new. c \<noteq> [] \<and> \<not> is_space (hd c) \<and> \<not> is_space (last c)"
    using strip_trimmed by auto
  have empty: "?new = [] \<longleftrightarrow> (\<forall>l\<in>set ?lines. strip l = [])"
    by (simp add: filter_empty_conv)
  show ?thesis
  proof (cases "?new = []")
    case True
    then have "update_categories custom_categories categories_text =
                 Inr (custom_categories, Error)"
      using s by (simp add: update_categories_def)
    with s assms True empty show ?thesis by auto
  next
    case False
    then have "update_categories custom_categories categories_text =
                 Inr (?new, Success (length ?new))"
      using s by (simp add: update_categories_def Let_def)
    with s new False empty show ?thesis by auto
  qed
qed

theorem update_categories_invariant_witness:
  "default_categories \<noteq> [] \<and>
   list_all (\<lambda>c. c \<noteq> [] \<and> \<not> is_space (hd c) \<and> \<not> is_space (last c)) default_categories \<and>
   update_categories default_categories (u '' grammar '' @ [10, 10] @ u ''pronunciation'') =
     Inr (scenario_categories, Success 2) \<and>
   update_categories default_categories (u ''  '' @ [10]) = Inr (default_categories, Error)"
proof -
  have h1: "default_categories \<noteq> []"
    and h2: "\<forall>c\<in>set default_categories. c \<noteq> [] \<and> \<not> is_space (hd c) \<and> \<not> is_space (last c)"
    using default_categories_trimmed by simp_all
  from update_categories_invariant [OF h1 h2, of "u ''  '' @ [10]"]
  obtain cats n where
    "update_categories default_categories (u ''  '' @ [10]) = Inr (cats, n)" "cats \<noteq> []"
    by blast
  moreover have "update_categories default_categories (u ''  '' @ [10]) =
                   Inr (default_categories, Error)"
    by (simp add: update_categories_def str_split_def strip_def is_space_def u_def)
  moreover have "update_categories default_categories
                   (u '' grammar '' @ [10, 10] @ u ''pronunciation'') =
                   Inr (scenario_categories, Success 2)"
    by (simp add: update_categories_def str_split_def strip_def is_space_def u_def
        scenario_categories_def)
  ultimately show ?thesis using h1 h2 by (simp add: list_all_iff)
qed

end
